theory Spec2Isabelle
  imports Complex_Main
begin

section \<open>BloomGarden: the savings ledger, the goal flag and the plant stage\<close>

text \<open>
  A shallow embedding of the persistence and domain logic of \<^verbatim>\<open>app/app.py\<close>: the
  module-level database functions, \<^verbatim>\<open>get_plant_stage\<close>, and the parts of the
  widget's handlers that read or write the store. Widgets, animations and dialogs are
  left out; a warning dialog is kept as the value the handler returns, and so is an
  exception that leaves the handler.

  Modelling decisions:
  \<^item> The SQLite file is the record \<open>bloom_garden\<close>: the rows of table \<^verbatim>\<open>savings\<close> in
    insertion order, the AUTOINCREMENT counter of that table, and the rows of table
    \<^verbatim>\<open>app_state\<close> as a map from key to value. The widget's field
    \<^verbatim>\<open>last_action_id\<close> is a fourth field of the same record. Both tables are
    taken to exist (\<^verbatim>\<open>init_db\<close> creates the first; \<^verbatim>\<open>is_goal_reached\<close>, which
    \<^verbatim>\<open>refresh_ui\<close> calls before every \<^verbatim>\<open>set_goal_reached\<close>, creates the second).
  \<^item> Amounts are Python's unbounded integers, type \<open>int\<close>. SQLite stores signed 64-bit
    integers: binding an amount outside that range to the \<^verbatim>\<open>INSERT\<close> raises
    \<^verbatim>\<open>OverflowError\<close> and writes nothing, and \<^verbatim>\<open>SUM\<close> raises
    \<^verbatim>\<open>OperationalError\<close> (integer overflow) as soon as one of its running sums, taken in
    id order, leaves the range.
  \<^item> An exception that leaves a handler ends it at that statement, with the writes made
    so far in place; the event loop then goes on with the next action.
  \<^item> \<^verbatim>\<open>total / SAVINGS_GOAL\<close> is the exact quotient, a \<open>rat\<close>. Python rounds the
    quotient to a double; lemma \<open>stage_of_progress_rounded\<close> shows that a monotone
    rounding which keeps the multiples of \<open>1/512\<close> leaves the stage unchanged when the
    goal is 500.
\<close>

subsection \<open>The store\<close>

definition SAVINGS_GOAL :: int where
  "SAVINGS_GOAL = 500"

text \<open>The range of an SQLite \<^verbatim>\<open>INTEGER\<close>, and the two exceptions the database raises.\<close>

definition INT64_MAX :: int where
  "INT64_MAX = 9223372036854775807"

definition INT64_MIN :: int where
  "INT64_MIN = - 9223372036854775808"

definition in_int64 :: "int \<Rightarrow> bool" where
  "in_int64 x = (INT64_MIN \<le> x \<and> x \<le> INT64_MAX)"

datatype py_exception = OverflowError | OperationalError

text \<open>A row of table \<^verbatim>\<open>savings\<close>: the pair (id, amount).\<close>

type_synonym savings_row = "int \<times> int"

record bloom_garden =
  savings :: "savings_row list"
  savings_seq :: int
  app_state :: "string \<rightharpoonup> string"
  last_action_id :: "int option"

text \<open>
  The state of a fresh installation when the window opens: no rows, no id ever
  assigned, no flag row, and \<^verbatim>\<open>self.last_action_id = None\<close>.
\<close>

definition init_garden :: bloom_garden where
  "init_garden = \<lparr>savings = [], savings_seq = 0, app_state = Map.empty, last_action_id = None\<rparr>"

text \<open>
  \<^verbatim>\<open>SELECT value FROM app_state WHERE key='goal_reached'\<close>, then
  \<^verbatim>\<open>row is not None and row[0] == "true"\<close>.
\<close>

definition is_goal_reached :: "bloom_garden \<Rightarrow> bool" where
  "is_goal_reached s =
     (case app_state s ''goal_reached'' of None \<Rightarrow> False | Some v \<Rightarrow> v = ''true'')"

text \<open>\<^verbatim>\<open>INSERT OR REPLACE INTO app_state (key, value) VALUES ('goal_reached', 'true')\<close>.\<close>

definition set_goal_reached :: "bloom_garden \<Rightarrow> bloom_garden" where
  "set_goal_reached s = s\<lparr>app_state := (app_state s)(''goal_reached'' \<mapsto> ''true'')\<rparr>"

text \<open>
  The largest id among the rows present (0 for an empty table), and the id that
  \<^verbatim>\<open>INTEGER PRIMARY KEY AUTOINCREMENT\<close> gives the next row: one more than the largest id
  the table has ever held, which SQLite keeps in its sequence table.
\<close>

fun max_rowid :: "savings_row list \<Rightarrow> int" where
  "max_rowid [] = 0"
| "max_rowid (r # rs) = max (fst r) (max_rowid rs)"

definition next_rowid :: "bloom_garden \<Rightarrow> int" where
  "next_rowid s = max (savings_seq s) (max_rowid (savings s)) + 1"

text \<open>
  \<^verbatim>\<open>INSERT INTO savings (amount) VALUES (?)\<close>. Binding an amount that does not fit
  64 bits raises \<^verbatim>\<open>OverflowError\<close> before anything is written; otherwise the function
  returns \<^verbatim>\<open>cur.lastrowid\<close> together with the updated store.
\<close>

definition add_savings :: "int \<Rightarrow> bloom_garden \<Rightarrow> py_exception + int \<times> bloom_garden" where
  "add_savings amount s =
     (if in_int64 amount
      then (let last_id = next_rowid s
            in Inr (last_id,
                    s\<lparr>savings := savings s @ [(last_id, amount)], savings_seq := last_id\<rparr>))
      else Inl OverflowError)"

text \<open>
  SQL's \<^verbatim>\<open>SUM\<close> adds the amounts in id order into a 64-bit accumulator that starts
  at 0; \<open>sql_sum_from\<close> is \<open>None\<close> once an addition leaves the range. \<^verbatim>\<open>SUM\<close> is
  NULL over no rows, raises \<^verbatim>\<open>OperationalError\<close> after an overflow, and
  \<^verbatim>\<open>COALESCE(SUM(amount), 0)\<close> replaces the NULL by 0.
\<close>

fun sql_sum_from :: "int \<Rightarrow> int list \<Rightarrow> int option" where
  "sql_sum_from acc [] = Some acc"
| "sql_sum_from acc (x # xs) =
     (if in_int64 (acc + x) then sql_sum_from (acc + x) xs else None)"

definition sql_sum :: "int list \<Rightarrow> py_exception + int option" where
  "sql_sum xs =
     (if xs = [] then Inr None
      else (case sql_sum_from 0 xs of
              None \<Rightarrow> Inl OperationalError
            | Some t \<Rightarrow> Inr (Some t)))"

definition coalesce :: "int option \<Rightarrow> int \<Rightarrow> int" where
  "coalesce v d = (case v of None \<Rightarrow> d | Some x \<Rightarrow> x)"

definition get_total_savings :: "bloom_garden \<Rightarrow> py_exception + int" where
  "get_total_savings s =
     (case sql_sum (map snd (savings s)) of
        Inl e \<Rightarrow> Inl e
      | Inr v \<Rightarrow> Inr (coalesce v 0))"

text \<open>\<^verbatim>\<open>DELETE FROM savings WHERE id = ?\<close>.\<close>

definition delete_saving_row :: "int \<Rightarrow> bloom_garden \<Rightarrow> bloom_garden" where
  "delete_saving_row row_id s = s\<lparr>savings := filter (\<lambda>r. fst r \<noteq> row_id) (savings s)\<rparr>"

text \<open>\<^verbatim>\<open>DELETE FROM savings\<close>, the statement \<^verbatim>\<open>handle_reset_savings\<close> runs.\<close>

definition delete_all_savings :: "bloom_garden \<Rightarrow> bloom_garden" where
  "delete_all_savings s = s\<lparr>savings := []\<rparr>"

subsection \<open>The plant stage\<close>

text \<open>The chain of comparisons of \<^verbatim>\<open>get_plant_stage\<close>.\<close>

definition stage_of_progress :: "rat \<Rightarrow> string" where
  "stage_of_progress progress =
     (if progress < 0.25 then ''seed''
      else if progress < 0.5 then ''small''
      else if progress < 0.75 then ''growing''
      else if progress < 1.0 then ''almost''
      else ''bloom'')"

text \<open>
  \<^verbatim>\<open>progress = total / SAVINGS_GOAL if SAVINGS_GOAL > 0 else 0\<close>, with the module
  constant as the parameter \<open>goal\<close> (the source's \<^verbatim>\<open>total\<close> is written \<open>tot\<close>,
  since \<open>total\<close> names a constant of HOL).
\<close>

definition progress_of :: "int \<Rightarrow> int \<Rightarrow> rat" where
  "progress_of goal tot = (if goal > 0 then of_int tot / of_int goal else 0)"

definition get_plant_stage_goal :: "int \<Rightarrow> int \<Rightarrow> string" where
  "get_plant_stage_goal goal tot = stage_of_progress (progress_of goal tot)"

definition get_plant_stage :: "int \<Rightarrow> string" where
  "get_plant_stage tot = get_plant_stage_goal SAVINGS_GOAL tot"

subsection \<open>The handlers\<close>

text \<open>
  What \<^verbatim>\<open>self.input_box.text().strip()\<close> and \<^verbatim>\<open>int(text)\<close> make of the input box:
  the empty string, a text \<^verbatim>\<open>int\<close> rejects with ValueError, or a whole number.
\<close>

datatype input_text = Blank | NotWhole | Whole int

text \<open>
  The warnings of the handlers, under the names the specification gives them:
  "Oops!" is \<open>ValidationError\<close>, "Goal already reached" is \<open>GoalAlreadyReachedError\<close>,
  "Not enough savings" is \<open>InsufficientFundsError\<close>, "Nothing to undo" is
  \<open>NothingToUndoError\<close>.
\<close>

datatype error =
  ValidationError | GoalAlreadyReachedError | InsufficientFundsError | NothingToUndoError

text \<open>
  How a handler ends: with a warning, with \<^verbatim>\<open>refresh_ui\<close> run to the end of its
  goal test (the flag tells whether \<^verbatim>\<open>play_celebration\<close> ran), with an exception of
  the database, or, for the reset dialog answered "No", with nothing done.
\<close>

datatype outcome = Warning error | Refreshed bool | Raised py_exception | Dismissed

text \<open>
  The part of \<^verbatim>\<open>refresh_ui\<close> that touches the store:
  \<^verbatim>\<open>total = get_total_savings()\<close>, which may raise, and then
  \<^verbatim>\<open>if total >= SAVINGS_GOAL and not goal_already_reached: set_goal_reached(); self.play_celebration()\<close>.
\<close>

definition refresh_ui :: "bloom_garden \<Rightarrow> outcome \<times> bloom_garden" where
  "refresh_ui s =
     (case get_total_savings s of
        Inl e \<Rightarrow> (Raised e, s)
      | Inr tot \<Rightarrow>
          (let goal_already_reached = is_goal_reached s
           in if tot \<ge> SAVINGS_GOAL \<and> \<not> goal_already_reached
              then (Refreshed True, set_goal_reached s)
              else (Refreshed False, s)))"

fun handle_add_savings :: "input_text \<Rightarrow> bloom_garden \<Rightarrow> outcome \<times> bloom_garden" where
  "handle_add_savings Blank s = (Warning ValidationError, s)"
| "handle_add_savings NotWhole s = (Warning ValidationError, s)"
| "handle_add_savings (Whole amount) s =
     (if amount \<le> 0 then (Warning ValidationError, s)
      else (case get_total_savings s of
              Inl e \<Rightarrow> (Raised e, s)
            | Inr tot \<Rightarrow>
                if tot \<ge> SAVINGS_GOAL then (Warning GoalAlreadyReachedError, s)
                else (case add_savings amount s of
                        Inl e \<Rightarrow> (Raised e, s)
                      | Inr (last_id, s') \<Rightarrow>
                          refresh_ui (s'\<lparr>last_action_id := Some last_id\<rparr>))))"

fun handle_subtract_savings :: "input_text \<Rightarrow> bloom_garden \<Rightarrow> outcome \<times> bloom_garden" where
  "handle_subtract_savings Blank s = (Warning ValidationError, s)"
| "handle_subtract_savings NotWhole s = (Warning ValidationError, s)"
| "handle_subtract_savings (Whole amount) s =
     (if amount \<le> 0 then (Warning ValidationError, s)
      else (case get_total_savings s of
              Inl e \<Rightarrow> (Raised e, s)
            | Inr current_total \<Rightarrow>
                if amount > current_total then (Warning InsufficientFundsError, s)
                else (case add_savings (- amount) s of
                        Inl e \<Rightarrow> (Raised e, s)
                      | Inr (last_id, s') \<Rightarrow>
                          refresh_ui (s'\<lparr>last_action_id := Some last_id\<rparr>))))"

text \<open>The argument tells whether the "Yes" button of the confirmation dialog was clicked.\<close>

definition handle_reset_savings :: "bool \<Rightarrow> bloom_garden \<Rightarrow> outcome \<times> bloom_garden" where
  "handle_reset_savings yes s =
     (if yes then refresh_ui (delete_all_savings s) else (Dismissed, s))"

definition handle_undo :: "bloom_garden \<Rightarrow> outcome \<times> bloom_garden" where
  "handle_undo s =
     (case last_action_id s of
        None \<Rightarrow> (Warning NothingToUndoError, s)
      | Some row_id \<Rightarrow> refresh_ui ((delete_saving_row row_id s)\<lparr>last_action_id := None\<rparr>))"

text \<open>
  The end of the window's constructor, run each time the application is started on the
  database file: \<^verbatim>\<open>self.last_action_id = None\<close>, then \<^verbatim>\<open>self.refresh_ui()\<close>. An
  exception here leaves the constructor, no window opens, and the database is as it was.
\<close>

definition init_window :: "bloom_garden \<Rightarrow> outcome \<times> bloom_garden" where
  "init_window s = refresh_ui (s\<lparr>last_action_id := None\<rparr>)"

subsection \<open>Sequences of user actions\<close>

text \<open>
  The four buttons, and \<open>Launch\<close> for closing the application and starting it again
  on the same database file. After a \<open>Launch\<close> that raises no button can be pressed;
  the lists of actions below do not exclude that, so they cover more than the
  application can do, never less.
\<close>

datatype action =
  AddSavings input_text | SubtractSavings input_text | UndoLast | ResetAll bool | Launch

fun perform :: "action \<Rightarrow> bloom_garden \<Rightarrow> outcome \<times> bloom_garden" where
  "perform (AddSavings t) s = handle_add_savings t s"
| "perform (SubtractSavings t) s = handle_subtract_savings t s"
| "perform UndoLast s = handle_undo s"
| "perform (ResetAll yes) s = handle_reset_savings yes s"
| "perform Launch s = init_window s"

text \<open>The store after a list of actions, and the outcomes of the actions in order.\<close>

fun run :: "action list \<Rightarrow> bloom_garden \<Rightarrow> bloom_garden" where
  "run [] s = s"
| "run (a # as) s = run as (snd (perform a s))"

fun outcomes :: "action list \<Rightarrow> bloom_garden \<Rightarrow> outcome list" where
  "outcomes [] s = []"
| "outcomes (a # as) s = fst (perform a s) # outcomes as (snd (perform a s))"

subsection \<open>The invariant of the ledger\<close>

text \<open>
  The sum of the amounts is not negative, and it stays so when the row that
  \<^verbatim>\<open>last_action_id\<close> names is deleted: this is what \<^verbatim>\<open>handle_undo\<close> needs to keep
  the total from falling below zero.
\<close>

definition ledger_sum :: "bloom_garden \<Rightarrow> int" where
  "ledger_sum s = sum_list (map snd (savings s))"

definition ledger_ok :: "bloom_garden \<Rightarrow> bool" where
  "ledger_ok s =
     (0 \<le> ledger_sum s
      \<and> (case last_action_id s of
            None \<Rightarrow> True
          | Some row_id \<Rightarrow> 0 \<le> ledger_sum (delete_saving_row row_id s)))"

text \<open>
  The store after a deposit of 499 and one of \<open>2^63 - 1\<close>, both accepted by
  \<^verbatim>\<open>handle_add_savings\<close>: the sum of its two rows does not fit 64 bits.
\<close>

definition overflow_garden :: bloom_garden where
  "overflow_garden =
     run [AddSavings (Whole 499), AddSavings (Whole 9223372036854775807)] init_garden"

section \<open>Properties of the store\<close>

subsection \<open>The 64-bit sum\<close>

lemma in_int64_0 [simp]: "in_int64 0"
  by (simp add: in_int64_def INT64_MIN_def INT64_MAX_def)

lemma sql_sum_from_sound: "sql_sum_from acc xs = Some t \<Longrightarrow> t = acc + sum_list xs"
proof (induction xs arbitrary: acc)
  case Nil
  then show ?case by simp
next
  case (Cons x xs)
  from Cons.prems have "sql_sum_from (acc + x) xs = Some t"
    by (simp split: if_splits)
  then have "t = acc + x + sum_list xs"
    by (rule Cons.IH)
  then show ?case by simp
qed

lemma sql_sum_from_range: "sql_sum_from acc xs = Some t \<Longrightarrow> in_int64 acc \<Longrightarrow> in_int64 t"
proof (induction xs arbitrary: acc)
  case Nil
  then show ?case by simp
next
  case (Cons x xs)
  from Cons.prems(1) have "sql_sum_from (acc + x) xs = Some t" and "in_int64 (acc + x)"
    by (simp_all split: if_splits)
  then show ?case by (rule Cons.IH)
qed




lemma get_total_savings_empty: "savings s = [] \<Longrightarrow> get_total_savings s = Inr 0"
  by (simp add: get_total_savings_def sql_sum_def coalesce_def)

lemma get_total_savings_from:
  "get_total_savings s =
     (case sql_sum_from 0 (map snd (savings s)) of
        None \<Rightarrow> Inl OperationalError
      | Some t \<Rightarrow> Inr t)"
  by (cases "savings s")
    (simp_all add: get_total_savings_def sql_sum_def coalesce_def split: option.splits)

lemma get_total_savings_sound: "get_total_savings s = Inr t \<Longrightarrow> t = ledger_sum s"
  using sql_sum_from_sound [of 0 "map snd (savings s)"]
  by (auto simp: get_total_savings_from ledger_sum_def split: option.splits)

lemma get_total_savings_range: "get_total_savings s = Inr t \<Longrightarrow> in_int64 t"
  using sql_sum_from_range [of 0 "map snd (savings s)"]
  by (auto simp: get_total_savings_from split: option.splits)

lemma get_total_savings_raises: "get_total_savings s = Inl e \<Longrightarrow> e = OperationalError"
  by (auto simp: get_total_savings_from split: option.splits)



lemma get_total_savings_rows:
  "savings s' = savings s \<Longrightarrow> get_total_savings s' = get_total_savings s"
  by (simp add: get_total_savings_def)

subsection \<open>The goal flag\<close>

lemma is_goal_reached_set [simp]: "is_goal_reached (set_goal_reached s)"
  by (simp add: is_goal_reached_def set_goal_reached_def)

lemma savings_set_goal_reached [simp]: "savings (set_goal_reached s) = savings s"
  by (simp add: set_goal_reached_def)

lemma last_action_set_goal_reached [simp]:
  "last_action_id (set_goal_reached s) = last_action_id s"
  by (simp add: set_goal_reached_def)

lemma seq_set_goal_reached [simp]: "savings_seq (set_goal_reached s) = savings_seq s"
  by (simp add: set_goal_reached_def)

subsection \<open>The handlers step by step\<close>

lemma refresh_ui_savings [simp]: "savings (snd (refresh_ui s)) = savings s"
  by (simp add: refresh_ui_def Let_def split: sum.splits)

lemma refresh_ui_last_action [simp]: "last_action_id (snd (refresh_ui s)) = last_action_id s"
  by (simp add: refresh_ui_def Let_def split: sum.splits)

lemma refresh_ui_seq [simp]: "savings_seq (snd (refresh_ui s)) = savings_seq s"
  by (simp add: refresh_ui_def Let_def split: sum.splits)


lemma refresh_ui_ledger_sum [simp]: "ledger_sum (snd (refresh_ui s)) = ledger_sum s"
  by (simp add: ledger_sum_def)




lemma refresh_ui_returns:
  "get_total_savings s = Inr tot \<Longrightarrow>
   refresh_ui s =
     (if SAVINGS_GOAL \<le> tot \<and> \<not> is_goal_reached s
      then (Refreshed True, set_goal_reached s) else (Refreshed False, s))"
  by (simp add: refresh_ui_def Let_def)

lemma refresh_ui_below_goal:
  "get_total_savings s = Inr tot \<Longrightarrow> tot < SAVINGS_GOAL \<Longrightarrow> refresh_ui s = (Refreshed False, s)"
  by (simp add: refresh_ui_returns)

lemma rowid_le_max: "r \<in> set rs \<Longrightarrow> fst r \<le> max_rowid rs"
  by (induction rs) auto

lemma next_rowid_fresh: "r \<in> set (savings s) \<Longrightarrow> fst r \<noteq> next_rowid s"
  using rowid_le_max [of r "savings s"] by (simp add: next_rowid_def)

lemma filter_next_rowid: "filter (\<lambda>r. fst r \<noteq> next_rowid s) (savings s) = savings s"
  by (simp add: filter_id_conv next_rowid_fresh)

lemma next_rowid_not_in: "next_rowid s \<notin> fst ` set (savings s)"
proof
  assume "next_rowid s \<in> fst ` set (savings s)"
  then obtain r where "r \<in> set (savings s)" and "fst r = next_rowid s"
    by auto
  then show False
    using next_rowid_fresh by blast
qed

text \<open>The store after a row has been inserted and its id recorded.\<close>

lemma handle_add_success:
  "0 < amount \<Longrightarrow> in_int64 amount \<Longrightarrow> get_total_savings s = Inr tot \<Longrightarrow> tot < SAVINGS_GOAL \<Longrightarrow>
   handle_add_savings (Whole amount) s =
     refresh_ui (s\<lparr>savings := savings s @ [(next_rowid s, amount)],
                   savings_seq := next_rowid s,
                   last_action_id := Some (next_rowid s)\<rparr>)"
  by (simp add: add_savings_def Let_def)

lemma handle_add_too_large:
  "0 < amount \<Longrightarrow> \<not> in_int64 amount \<Longrightarrow> get_total_savings s = Inr tot \<Longrightarrow> tot < SAVINGS_GOAL \<Longrightarrow>
   handle_add_savings (Whole amount) s = (Raised OverflowError, s)"
  by (simp add: add_savings_def)

lemma handle_subtract_success:
  assumes "0 < amount" and "get_total_savings s = Inr tot" and "amount \<le> tot"
  shows "handle_subtract_savings (Whole amount) s =
     refresh_ui (s\<lparr>savings := savings s @ [(next_rowid s, - amount)],
                   savings_seq := next_rowid s,
                   last_action_id := Some (next_rowid s)\<rparr>)"
proof -
  have "in_int64 tot"
    using assms(2) by (rule get_total_savings_range)
  with assms(1,3) have "in_int64 (- amount)"
    by (simp add: in_int64_def INT64_MIN_def INT64_MAX_def)
  with assms show ?thesis
    by (simp add: add_savings_def Let_def)
qed

lemma handle_add_shape:
  "(\<exists>w. handle_add_savings t s = (Warning w, s))
   \<or> (\<exists>e. handle_add_savings t s = (Raised e, s))
   \<or> (\<exists>amount. 0 < amount \<and>
         handle_add_savings t s =
           refresh_ui (s\<lparr>savings := savings s @ [(next_rowid s, amount)],
                         savings_seq := next_rowid s,
                         last_action_id := Some (next_rowid s)\<rparr>))"
proof (cases t)
  case (Whole amount)
  show ?thesis
  proof (cases "get_total_savings s")
    case (Inl e)
    then show ?thesis by (simp add: Whole)
  next
    case (Inr tot)
    show ?thesis
    proof (cases "0 < amount \<and> tot < SAVINGS_GOAL")
      case False
      with Inr show ?thesis by (auto simp: Whole)
    next
      case True
      show ?thesis
      proof (cases "in_int64 amount")
        case False
        with True Inr have "handle_add_savings t s = (Raised OverflowError, s)"
          unfolding Whole using handle_add_too_large [of amount s tot] by blast
        then show ?thesis by blast
      next
        case in_range: True
        with True Inr have "handle_add_savings t s =
            refresh_ui (s\<lparr>savings := savings s @ [(next_rowid s, amount)],
                          savings_seq := next_rowid s,
                          last_action_id := Some (next_rowid s)\<rparr>)"
          unfolding Whole using handle_add_success [of amount s tot] by blast
        with True show ?thesis by blast
      qed
    qed
  qed
qed simp_all

lemma handle_subtract_shape:
  "(\<exists>w. handle_subtract_savings t s = (Warning w, s))
   \<or> (\<exists>e. handle_subtract_savings t s = (Raised e, s))
   \<or> (\<exists>amount tot. 0 < amount \<and> get_total_savings s = Inr tot \<and> amount \<le> tot \<and>
         handle_subtract_savings t s =
           refresh_ui (s\<lparr>savings := savings s @ [(next_rowid s, - amount)],
                         savings_seq := next_rowid s,
                         last_action_id := Some (next_rowid s)\<rparr>))"
proof (cases t)
  case (Whole amount)
  show ?thesis
  proof (cases "get_total_savings s")
    case (Inl e)
    then show ?thesis by (simp add: Whole)
  next
    case (Inr tot)
    show ?thesis
    proof (cases "0 < amount \<and> amount \<le> tot")
      case False
      with Inr show ?thesis by (auto simp: Whole)
    next
      case True
      with Inr have "handle_subtract_savings t s =
          refresh_ui (s\<lparr>savings := savings s @ [(next_rowid s, - amount)],
                        savings_seq := next_rowid s,
                        last_action_id := Some (next_rowid s)\<rparr>)"
        unfolding Whole using handle_subtract_success [of amount s tot] by blast
      with True Inr show ?thesis by blast
    qed
  qed
qed simp_all

lemma handle_undo_some:
  "last_action_id s = Some row_id \<Longrightarrow>
   handle_undo s = refresh_ui ((delete_saving_row row_id s)\<lparr>last_action_id := None\<rparr>)"
  by (simp add: handle_undo_def)

lemma handle_undo_none:
  "last_action_id s = None \<Longrightarrow> handle_undo s = (Warning NothingToUndoError, s)"
  by (simp add: handle_undo_def)

lemma handle_reset_yes:
  "handle_reset_savings True s = (Refreshed False, delete_all_savings s)"
proof -
  have "get_total_savings (delete_all_savings s) = Inr 0"
    by (rule get_total_savings_empty) (simp add: delete_all_savings_def)
  then have "refresh_ui (delete_all_savings s) = (Refreshed False, delete_all_savings s)"
    by (rule refresh_ui_below_goal) (simp add: SAVINGS_GOAL_def)
  then show ?thesis by (simp add: handle_reset_savings_def)
qed

lemma delete_absent_row:
  "row_id \<notin> fst ` set (savings s) \<Longrightarrow> delete_saving_row row_id s = s"
proof -
  assume "row_id \<notin> fst ` set (savings s)"
  then have "filter (\<lambda>r. fst r \<noteq> row_id) (savings s) = savings s"
    by (auto simp: filter_id_conv)
  then show ?thesis by (simp add: delete_saving_row_def)
qed

subsection \<open>The invariant is kept\<close>

lemma ledger_ok_rows:
  "ledger_ok s =
     (0 \<le> sum_list (map snd (savings s))
      \<and> (\<forall>i. last_action_id s = Some i \<longrightarrow>
             0 \<le> sum_list (map snd (filter (\<lambda>r. fst r \<noteq> i) (savings s)))))"
  by (auto simp: ledger_ok_def ledger_sum_def delete_saving_row_def split: option.splits)

lemma ledger_ok_init: "ledger_ok init_garden"
  by (simp add: ledger_ok_rows init_garden_def)

lemma ledger_ok_add: "ledger_ok s \<Longrightarrow> ledger_ok (snd (handle_add_savings t s))"
  using handle_add_shape [of t s]
  by (auto simp: ledger_ok_rows filter_next_rowid)

lemma ledger_ok_subtract: "ledger_ok s \<Longrightarrow> ledger_ok (snd (handle_subtract_savings t s))"
proof -
  assume ok: "ledger_ok s"
  from handle_subtract_shape [of t s] show ?thesis
  proof (elim disjE exE conjE)
    fix amount tot
    assume "get_total_savings s = Inr tot" and le: "amount \<le> tot"
      and eq: "handle_subtract_savings t s =
        refresh_ui (s\<lparr>savings := savings s @ [(next_rowid s, - amount)],
                      savings_seq := next_rowid s,
                      last_action_id := Some (next_rowid s)\<rparr>)"
    then have "tot = sum_list (map snd (savings s))"
      using get_total_savings_sound [of s tot] by (simp add: ledger_sum_def)
    with ok le show ?thesis
      unfolding eq by (simp add: ledger_ok_rows filter_next_rowid)
  qed (use ok in auto)
qed

lemma ledger_ok_undo: "ledger_ok s \<Longrightarrow> ledger_ok (snd (handle_undo s))"
  by (auto simp: handle_undo_def ledger_ok_rows delete_saving_row_def split: option.splits)

lemma ledger_ok_reset: "ledger_ok s \<Longrightarrow> ledger_ok (snd (handle_reset_savings yes s))"
  by (auto simp: handle_reset_savings_def ledger_ok_rows delete_all_savings_def)

lemma ledger_ok_launch: "ledger_ok s \<Longrightarrow> ledger_ok (snd (init_window s))"
  by (simp add: init_window_def ledger_ok_rows)

lemma ledger_ok_perform: "ledger_ok s \<Longrightarrow> ledger_ok (snd (perform a s))"
  by (cases a)
    (simp_all add: ledger_ok_add ledger_ok_subtract ledger_ok_undo ledger_ok_reset
      ledger_ok_launch)

lemma ledger_ok_run: "ledger_ok s \<Longrightarrow> ledger_ok (run acts s)"
  by (induction acts arbitrary: s) (simp_all add: ledger_ok_perform)

lemma distinct_ids_perform:
  "distinct (map fst (savings s)) \<Longrightarrow> distinct (map fst (savings (snd (perform a s))))"
proof (cases a)
  case (AddSavings t)
  assume "distinct (map fst (savings s))"
  with handle_add_shape [of t s] next_rowid_not_in [of s] show ?thesis
    unfolding AddSavings perform.simps by auto
next
  case (SubtractSavings t)
  assume "distinct (map fst (savings s))"
  with handle_subtract_shape [of t s] next_rowid_not_in [of s] show ?thesis
    unfolding SubtractSavings perform.simps by auto
next
  case UndoLast
  assume "distinct (map fst (savings s))"
  then show ?thesis
    by (simp add: UndoLast handle_undo_def delete_saving_row_def distinct_map_filter
        split: option.splits)
next
  case (ResetAll yes)
  assume "distinct (map fst (savings s))"
  then show ?thesis
    by (simp add: ResetAll handle_reset_savings_def delete_all_savings_def)
next
  case Launch
  assume "distinct (map fst (savings s))"
  then show ?thesis
    by (simp add: Launch init_window_def)
qed

lemma distinct_ids_run:
  "distinct (map fst (savings s)) \<Longrightarrow> distinct (map fst (savings (run acts s)))"
  by (induction acts arbitrary: s) (simp_all add: distinct_ids_perform)

subsection \<open>Undo after a deposit, and after a reset\<close>

lemma undo_after_add:
  assumes "0 < amount" and "in_int64 amount"
    and "get_total_savings s = Inr tot" and "tot < SAVINGS_GOAL"
  shows "savings (snd (handle_undo (snd (handle_add_savings (Whole amount) s)))) = savings s"
    and "last_action_id (snd (handle_undo (snd (handle_add_savings (Whole amount) s)))) = None"
proof -
  let ?s1 = "snd (handle_add_savings (Whole amount) s)"
  have eq: "handle_add_savings (Whole amount) s =
      refresh_ui (s\<lparr>savings := savings s @ [(next_rowid s, amount)],
                    savings_seq := next_rowid s,
                    last_action_id := Some (next_rowid s)\<rparr>)"
    using assms by (rule handle_add_success)
  have last: "last_action_id ?s1 = Some (next_rowid s)"
    unfolding eq by simp
  have rows: "savings ?s1 = savings s @ [(next_rowid s, amount)]"
    unfolding eq by simp
  show "savings (snd (handle_undo ?s1)) = savings s"
    unfolding handle_undo_some [OF last]
    by (simp add: delete_saving_row_def rows filter_next_rowid del: handle_add_savings.simps)
  show "last_action_id (snd (handle_undo ?s1)) = None"
    unfolding handle_undo_some [OF last] by simp
qed

lemma undo_after_reset_tracked:
  assumes "last_action_id s = Some row_id"
  shows "handle_undo (snd (handle_reset_savings True s))
     = (Refreshed False, (delete_all_savings s)\<lparr>last_action_id := None\<rparr>)"
proof -
  have "last_action_id (delete_all_savings s) = Some row_id"
    using assms by (simp add: delete_all_savings_def)
  then have "handle_undo (delete_all_savings s)
      = refresh_ui ((delete_saving_row row_id (delete_all_savings s))\<lparr>last_action_id := None\<rparr>)"
    by (rule handle_undo_some)
  also have "delete_saving_row row_id (delete_all_savings s) = delete_all_savings s"
    by (rule delete_absent_row) (simp add: delete_all_savings_def)
  also have "refresh_ui ((delete_all_savings s)\<lparr>last_action_id := None\<rparr>)
      = (Refreshed False, (delete_all_savings s)\<lparr>last_action_id := None\<rparr>)"
  proof (rule refresh_ui_below_goal)
    show "get_total_savings ((delete_all_savings s)\<lparr>last_action_id := None\<rparr>) = Inr 0"
      by (rule get_total_savings_empty) (simp add: delete_all_savings_def)
    show "0 < SAVINGS_GOAL"
      by (simp add: SAVINGS_GOAL_def)
  qed
  finally show ?thesis by (simp add: handle_reset_yes)
qed

subsection \<open>The flag is set once\<close>









subsection \<open>The store whose sum overflows\<close>


lemma overflow_garden_last: "last_action_id overflow_garden = Some 2"
  unfolding overflow_garden_def by code_simp



subsection \<open>The stage in whole numbers, and under rounding\<close>

lemma progress_of_500: "progress_of 500 tot = of_int tot / 500"
  by (simp add: progress_of_def)

lemma progress_less_iff:
  "(progress_of 500 tot < 0.25) = (tot < 125)"
  "(progress_of 500 tot < 0.5) = (tot < 250)"
  "(progress_of 500 tot < 0.75) = (tot < 375)"
  "(progress_of 500 tot < 1.0) = (tot < 500)"
proof -
  have "(of_int tot / (500::rat) < c / 500) = (of_int tot < c)" for c :: rat
    by (simp add: divide_less_cancel)
  note d = this
  have "(progress_of 500 tot < 0.25) = (of_int tot < (125::rat))"
    using d [of 125] by (simp add: progress_of_500)
  then show "(progress_of 500 tot < 0.25) = (tot < 125)"
    by (metis of_int_less_iff of_int_numeral)
  have "(progress_of 500 tot < 0.5) = (of_int tot < (250::rat))"
    using d [of 250] by (simp add: progress_of_500)
  then show "(progress_of 500 tot < 0.5) = (tot < 250)"
    by (metis of_int_less_iff of_int_numeral)
  have "(progress_of 500 tot < 0.75) = (of_int tot < (375::rat))"
    using d [of 375] by (simp add: progress_of_500)
  then show "(progress_of 500 tot < 0.75) = (tot < 375)"
    by (metis of_int_less_iff of_int_numeral)
  have "(progress_of 500 tot < 1.0) = (of_int tot < (500::rat))"
    using d [of 500] by (simp add: progress_of_500)
  then show "(progress_of 500 tot < 1.0) = (tot < 500)"
    by (metis of_int_less_iff of_int_numeral)
qed

lemma get_plant_stage_thresholds:
  "get_plant_stage tot =
     (if tot < 125 then ''seed''
      else if tot < 250 then ''small''
      else if tot < 375 then ''growing''
      else if tot < 500 then ''almost''
      else ''bloom'')"
  unfolding get_plant_stage_def get_plant_stage_goal_def SAVINGS_GOAL_def stage_of_progress_def
    progress_less_iff by (rule refl)

lemma stage_of_progress_rounded:
  fixes rnd :: "rat \<Rightarrow> rat"
  assumes mono: "\<And>x y. x \<le> y \<Longrightarrow> rnd x \<le> rnd y"
    and exact: "\<And>k::int. 0 \<le> k \<Longrightarrow> k \<le> 512 \<Longrightarrow> rnd (of_int k / 512) = of_int k / 512"
  shows "stage_of_progress (rnd (progress_of 500 tot)) = stage_of_progress (progress_of 500 tot)"
proof -
  have below: "rnd (of_int tot / 500) < of_int (k + 1) / 512"
    if "0 \<le> k" "k \<le> 511" "of_int tot / (500::rat) \<le> of_int k / 512" for k :: int
  proof -
    have "rnd (of_int tot / 500) \<le> rnd (of_int k / 512)"
      using that(3) by (rule mono)
    also have "\<dots> = of_int k / 512"
      using that by (intro exact) simp_all
    also have "\<dots> < of_int (k + 1) / 512"
      by simp
    finally show ?thesis .
  qed
  have above: "of_int k / 512 \<le> rnd (of_int tot / 500)"
    if "0 \<le> k" "k \<le> 512" "of_int k / 512 \<le> of_int tot / (500::rat)" for k :: int
  proof -
    have "of_int k / 512 = rnd (of_int k / 512)"
      using that by (simp add: exact)
    also have "\<dots> \<le> rnd (of_int tot / 500)"
      using that(3) by (rule mono)
    finally show ?thesis .
  qed
  have q: "(rnd (of_int tot / 500) < of_int c / 512) = (of_int tot / (500::rat) < of_int c / 512)"
    if c: "0 < c" "c \<le> 512"
      and sep: "of_int tot / (500::rat) < of_int c / 512 \<Longrightarrow>
                of_int tot / (500::rat) \<le> of_int (c - 1) / 512" for c :: int
  proof (cases "of_int tot / (500::rat) < of_int c / 512")
    case True
    from c have "0 \<le> c - 1" and "c - 1 \<le> 511" by simp_all
    from below [OF this sep [OF True]] True show ?thesis by simp
  next
    case False
    then have "of_int c / 512 \<le> of_int tot / (500::rat)" by simp
    with c have "of_int c / 512 \<le> rnd (of_int tot / 500)"
      by (intro above) simp_all
    with False show ?thesis by simp
  qed
  have q1: "(rnd (of_int tot / 500) < 0.25) = (of_int tot / (500::rat) < 0.25)"
  proof -
    have "of_int tot / (500::rat) \<le> of_int (128 - 1) / 512"
      if "of_int tot / (500::rat) < of_int 128 / 512"
    proof -
      from that have "tot < 125" by (simp add: field_simps)
      then have "tot \<le> 124" by simp
      then have "(of_int tot :: rat) \<le> 124" by (metis of_int_le_iff of_int_numeral)
      then show ?thesis by simp
    qed
    from q [of 128, OF _ _ this] show ?thesis by simp
  qed
  have q2: "(rnd (of_int tot / 500) < 0.5) = (of_int tot / (500::rat) < 0.5)"
  proof -
    have "of_int tot / (500::rat) \<le> of_int (256 - 1) / 512"
      if "of_int tot / (500::rat) < of_int 256 / 512"
    proof -
      from that have "tot < 250" by (simp add: field_simps)
      then have "tot \<le> 249" by simp
      then have "(of_int tot :: rat) \<le> 249" by (metis of_int_le_iff of_int_numeral)
      then show ?thesis by simp
    qed
    from q [of 256, OF _ _ this] show ?thesis by simp
  qed
  have q3: "(rnd (of_int tot / 500) < 0.75) = (of_int tot / (500::rat) < 0.75)"
  proof -
    have "of_int tot / (500::rat) \<le> of_int (384 - 1) / 512"
      if "of_int tot / (500::rat) < of_int 384 / 512"
    proof -
      from that have "tot < 375" by (simp add: field_simps)
      then have "tot \<le> 374" by simp
      then have "(of_int tot :: rat) \<le> 374" by (metis of_int_le_iff of_int_numeral)
      then show ?thesis by simp
    qed
    from q [of 384, OF _ _ this] show ?thesis by simp
  qed
  have q4: "(rnd (of_int tot / 500) < 1.0) = (of_int tot / (500::rat) < 1.0)"
  proof -
    have "of_int tot / (500::rat) \<le> of_int (512 - 1) / 512"
      if "of_int tot / (500::rat) < of_int 512 / 512"
    proof -
      from that have "tot < 500" by (simp add: field_simps)
      then have "tot \<le> 499" by simp
      then have "(of_int tot :: rat) \<le> 499" by (metis of_int_le_iff of_int_numeral)
      then show ?thesis by simp
    qed
    from q [of 512, OF _ _ this] show ?thesis by simp
  qed
  show ?thesis
    unfolding stage_of_progress_def progress_of_500 q1 q2 q3 q4 by (rule refl)
qed

section \<open>The claims\<close>




text \<open>
  C2. With the goal of 500, \<^verbatim>\<open>get_plant_stage\<close> picks the stage from
  \<open>progress = total / 500\<close> by strict upper bounds: below \<open>1/4\<close> seed, below
  \<open>1/2\<close> small, below \<open>3/4\<close> growing, below 1 almost, otherwise bloom; in whole
  numbers the brackets start at 125, 250, 375 and 500. A goal that is not positive makes
  the progress 0, hence the stage seed. The totals 0, 125, 250, 375, 500 and 600 give
  seed, small, growing, almost, bloom and bloom.
\<close>

theorem plant_stage_brackets:
  "get_plant_stage tot =
     (if (of_int tot :: rat) / 500 < 1 / 4 then ''seed''
      else if (of_int tot :: rat) / 500 < 1 / 2 then ''small''
      else if (of_int tot :: rat) / 500 < 3 / 4 then ''growing''
      else if (of_int tot :: rat) / 500 < 1 then ''almost''
      else ''bloom'')
   \<and> get_plant_stage tot =
     (if tot < 125 then ''seed''
      else if tot < 250 then ''small''
      else if tot < 375 then ''growing''
      else if tot < 500 then ''almost''
      else ''bloom'')
   \<and> (goal \<le> 0 \<longrightarrow> progress_of goal tot = 0 \<and> get_plant_stage_goal goal tot = ''seed'')
   \<and> get_plant_stage 0 = ''seed''
   \<and> get_plant_stage 125 = ''small''
   \<and> get_plant_stage 250 = ''growing''
   \<and> get_plant_stage 375 = ''almost''
   \<and> get_plant_stage 500 = ''bloom''
   \<and> get_plant_stage 600 = ''bloom''"
proof (intro conjI impI)
  show "get_plant_stage tot =
     (if (of_int tot :: rat) / 500 < 1 / 4 then ''seed''
      else if (of_int tot :: rat) / 500 < 1 / 2 then ''small''
      else if (of_int tot :: rat) / 500 < 3 / 4 then ''growing''
      else if (of_int tot :: rat) / 500 < 1 then ''almost''
      else ''bloom'')"
    by (simp add: get_plant_stage_def get_plant_stage_goal_def SAVINGS_GOAL_def
        stage_of_progress_def progress_of_def)
  show "get_plant_stage tot =
     (if tot < 125 then ''seed''
      else if tot < 250 then ''small''
      else if tot < 375 then ''growing''
      else if tot < 500 then ''almost''
      else ''bloom'')"
    by (rule get_plant_stage_thresholds)
  show "get_plant_stage 0 = ''seed''" by (simp add: get_plant_stage_thresholds)
  show "get_plant_stage 125 = ''small''" by (simp add: get_plant_stage_thresholds)
  show "get_plant_stage 250 = ''growing''" by (simp add: get_plant_stage_thresholds)
  show "get_plant_stage 375 = ''almost''" by (simp add: get_plant_stage_thresholds)
  show "get_plant_stage 500 = ''bloom''" by (simp add: get_plant_stage_thresholds)
  show "get_plant_stage 600 = ''bloom''" by (simp add: get_plant_stage_thresholds)
next
  assume "goal \<le> 0"
  then show "progress_of goal tot = 0" by (simp add: progress_of_def)
next
  assume "goal \<le> 0"
  then show "get_plant_stage_goal goal tot = ''seed''"
    by (simp add: get_plant_stage_goal_def progress_of_def stage_of_progress_def)
qed

theorem plant_stage_brackets_witness:
  "(0::int) \<le> 0 \<and> progress_of 0 300 = 0 \<and> get_plant_stage_goal 0 300 = ''seed''
   \<and> get_plant_stage 124 = ''seed'' \<and> get_plant_stage 499 = ''almost''"
  using plant_stage_brackets [of 124 0] plant_stage_brackets [of 499 0]
    plant_stage_brackets [of 300 0]
  by simp







text \<open>
  C5. \<^verbatim>\<open>handle_undo\<close> warns with \<open>NothingToUndoError\<close> exactly when
  \<^verbatim>\<open>last_action_id\<close> is \<^verbatim>\<open>None\<close>, as it is on the initial store and after every
  undo, and then the store is returned as it was. Otherwise the rows with the tracked id
  are deleted (at most one: ids are distinct in every store reached from the empty one)
  and \<^verbatim>\<open>last_action_id\<close> is cleared. So an undo right after a deposit that was written
  gives back the ledger and the total from before the deposit, and a second undo then
  warns with \<open>NothingToUndoError\<close>.
\<close>

theorem undo_last_cases:
  "(fst (handle_undo s) = Warning NothingToUndoError) = (last_action_id s = None)
   \<and> (last_action_id s = None \<longrightarrow> handle_undo s = (Warning NothingToUndoError, s))
   \<and> handle_undo init_garden = (Warning NothingToUndoError, init_garden)
   \<and> last_action_id (snd (handle_undo s)) = None
   \<and> (last_action_id s = Some row_id \<longrightarrow>
        savings (snd (handle_undo s)) = filter (\<lambda>r. fst r \<noteq> row_id) (savings s)
        \<and> last_action_id (snd (handle_undo s)) = None)
   \<and> distinct (map fst (savings (run acts init_garden)))
   \<and> (0 < amount \<and> amount \<le> INT64_MAX \<and> get_total_savings s = Inr tot \<and> tot < SAVINGS_GOAL
        \<longrightarrow>
        savings (snd (handle_undo (snd (handle_add_savings (Whole amount) s)))) = savings s
        \<and> get_total_savings (snd (handle_undo (snd (handle_add_savings (Whole amount) s))))
            = Inr tot
        \<and> handle_undo (snd (handle_undo (snd (handle_add_savings (Whole amount) s))))
            = (Warning NothingToUndoError,
               snd (handle_undo (snd (handle_add_savings (Whole amount) s)))))"
proof (intro conjI impI)
  show "(fst (handle_undo s) = Warning NothingToUndoError) = (last_action_id s = None)"
    by (cases "last_action_id s")
      (simp_all add: handle_undo_def refresh_ui_def Let_def split: sum.splits)
next
  assume "last_action_id s = None"
  then show "handle_undo s = (Warning NothingToUndoError, s)"
    by (rule handle_undo_none)
next
  show "handle_undo init_garden = (Warning NothingToUndoError, init_garden)"
    by (simp add: handle_undo_none init_garden_def)
next
  show "last_action_id (snd (handle_undo s)) = None"
    by (cases "last_action_id s") (simp_all add: handle_undo_def)
next
  assume some: "last_action_id s = Some row_id"
  show "savings (snd (handle_undo s)) = filter (\<lambda>r. fst r \<noteq> row_id) (savings s)"
    unfolding handle_undo_some [OF some] by (simp add: delete_saving_row_def)
  show "last_action_id (snd (handle_undo s)) = None"
    unfolding handle_undo_some [OF some] by simp
next
  show "distinct (map fst (savings (run acts init_garden)))"
    by (rule distinct_ids_run) (simp add: init_garden_def)
next
  assume ok: "0 < amount \<and> amount \<le> INT64_MAX \<and> get_total_savings s = Inr tot
      \<and> tot < SAVINGS_GOAL"
  then have range: "in_int64 amount"
    by (simp add: in_int64_def INT64_MIN_def)
  from ok range have rows:
    "savings (snd (handle_undo (snd (handle_add_savings (Whole amount) s)))) = savings s"
    using undo_after_add(1) [of amount s tot] by blast
  from ok range have last:
    "last_action_id (snd (handle_undo (snd (handle_add_savings (Whole amount) s)))) = None"
    using undo_after_add(2) [of amount s tot] by blast
  show "savings (snd (handle_undo (snd (handle_add_savings (Whole amount) s)))) = savings s"
    by (rule rows)
  have "get_total_savings (snd (handle_undo (snd (handle_add_savings (Whole amount) s))))
      = get_total_savings s"
    using rows by (rule get_total_savings_rows)
  with ok show "get_total_savings (snd (handle_undo (snd (handle_add_savings (Whole amount) s))))
      = Inr tot"
    by (simp only:)
  show "handle_undo (snd (handle_undo (snd (handle_add_savings (Whole amount) s))))
      = (Warning NothingToUndoError,
         snd (handle_undo (snd (handle_add_savings (Whole amount) s))))"
    by (rule handle_undo_none [OF last])
qed

theorem undo_last_cases_witness:
  "get_total_savings (run [AddSavings (Whole 120)] init_garden) = Inr 120
   \<and> last_action_id (run [AddSavings (Whole 120)] init_garden) = Some 1
   \<and> savings (snd (handle_undo (run [AddSavings (Whole 120)] init_garden))) = []
   \<and> get_total_savings
        (snd (handle_undo (snd (handle_add_savings (Whole 50)
           (run [AddSavings (Whole 120)] init_garden))))) = Inr 120
   \<and> fst (handle_undo (snd (handle_undo (snd (handle_add_savings (Whole 50)
           (run [AddSavings (Whole 120)] init_garden)))))) = Warning NothingToUndoError"
proof -
  let ?s = "run [AddSavings (Whole 120)] init_garden"
  have tot: "get_total_savings ?s = Inr 120" by code_simp
  have last: "last_action_id ?s = Some 1" by code_simp
  have rows: "savings ?s = [(1, 120)]" by code_simp
  show ?thesis
    using undo_last_cases [of ?s 1 "[]" 50 120]
    unfolding tot last rows by (simp add: SAVINGS_GOAL_def INT64_MAX_def)
qed




text \<open>
  C7. \<^verbatim>\<open>handle_reset_savings\<close>, confirmed with "Yes", deletes every row, so the
  total is 0 afterwards; table \<^verbatim>\<open>app_state\<close> is not touched, so the goal flag keeps
  its value, and a flag that was set is still set.
\<close>

theorem reset_all_keeps_flag:
  "savings (snd (handle_reset_savings True s)) = []
   \<and> get_total_savings (snd (handle_reset_savings True s)) = Inr 0
   \<and> is_goal_reached (snd (handle_reset_savings True s)) = is_goal_reached s
   \<and> app_state (snd (handle_reset_savings True s)) = app_state s
   \<and> is_goal_reached (snd (handle_reset_savings True (set_goal_reached s)))
   \<and> fst (handle_reset_savings True s) = Refreshed False"
  by (simp add: handle_reset_yes delete_all_savings_def get_total_savings_empty
      is_goal_reached_def set_goal_reached_def)

text \<open>
  C8. In every state reached from the empty store by the four handlers, whatever the
  inputs, the sum of the ledger is not negative, and so \<^verbatim>\<open>get_total_savings\<close> never
  returns a negative total: it returns that sum or raises.
\<close>

theorem total_never_negative:
  "0 \<le> sum_list (map snd (savings (run acts init_garden)))
   \<and> (case get_total_savings (run acts init_garden) of
         Inl e \<Rightarrow> e = OperationalError
       | Inr tot \<Rightarrow> 0 \<le> tot \<and> tot = sum_list (map snd (savings (run acts init_garden))))"
proof -
  have nonneg: "0 \<le> ledger_sum (run acts init_garden)"
    using ledger_ok_run [OF ledger_ok_init, of acts] by (simp add: ledger_ok_def)
  show ?thesis
  proof (cases "get_total_savings (run acts init_garden)")
    case (Inl e)
    with nonneg get_total_savings_raises [OF Inl] show ?thesis
      by (simp add: ledger_sum_def)
  next
    case (Inr tot)
    with nonneg get_total_savings_sound [OF Inr] show ?thesis
      by (simp add: ledger_sum_def)
  qed
qed

text \<open>
  C9. \<^verbatim>\<open>set_goal_reached\<close> is idempotent: a second call in a row leaves the store as
  the first call left it. \<^verbatim>\<open>is_goal_reached\<close> answers true after any call of
  \<^verbatim>\<open>set_goal_reached\<close>, and false on the initial store.
\<close>

theorem set_goal_reached_idempotent:
  "set_goal_reached (set_goal_reached s) = set_goal_reached s
   \<and> is_goal_reached (set_goal_reached s)
   \<and> \<not> is_goal_reached init_garden"
  by (simp add: set_goal_reached_def is_goal_reached_def init_garden_def)

text \<open>
  C10. \<^verbatim>\<open>handle_reset_savings\<close> leaves \<^verbatim>\<open>last_action_id\<close> as it was. So after a
  deposit or withdrawal that was written and a reset, \<^verbatim>\<open>handle_undo\<close> does not warn:
  it refreshes, the ledger stays empty (deleting an id that is not in the table changes
  nothing), \<^verbatim>\<open>last_action_id\<close> is cleared, and the total is 0.
\<close>

theorem undo_after_reset:
  "last_action_id (snd (handle_reset_savings True s)) = last_action_id s
   \<and> (row_id \<notin> fst ` set (savings s) \<longrightarrow> delete_saving_row row_id s = s)
   \<and> (0 < amount \<and> amount \<le> INT64_MAX \<and> get_total_savings s = Inr tot \<and> tot < SAVINGS_GOAL
        \<longrightarrow>
        (let s1 = snd (handle_add_savings (Whole amount) s);
             s2 = snd (handle_reset_savings True s1);
             s3 = snd (handle_undo s2)
         in last_action_id s2 = Some (next_rowid s)
            \<and> fst (handle_undo s2) = Refreshed False
            \<and> savings s2 = [] \<and> savings s3 = []
            \<and> last_action_id s3 = None
            \<and> get_total_savings s3 = Inr 0))
   \<and> (0 < amount \<and> get_total_savings s = Inr tot \<and> amount \<le> tot \<longrightarrow>
        (let s1 = snd (handle_subtract_savings (Whole amount) s);
             s2 = snd (handle_reset_savings True s1);
             s3 = snd (handle_undo s2)
         in last_action_id s2 = Some (next_rowid s)
            \<and> fst (handle_undo s2) = Refreshed False
            \<and> savings s2 = [] \<and> savings s3 = []
            \<and> last_action_id s3 = None
            \<and> get_total_savings s3 = Inr 0))"
proof (intro conjI impI)
  show "last_action_id (snd (handle_reset_savings True s)) = last_action_id s"
    by (simp add: handle_reset_yes delete_all_savings_def)
next
  assume "row_id \<notin> fst ` set (savings s)"
  then show "delete_saving_row row_id s = s"
    by (rule delete_absent_row)
next
  assume ok: "0 < amount \<and> amount \<le> INT64_MAX \<and> get_total_savings s = Inr tot
      \<and> tot < SAVINGS_GOAL"
  let ?s1 = "snd (handle_add_savings (Whole amount) s)"
  from ok have "in_int64 amount"
    by (simp add: in_int64_def INT64_MIN_def)
  with ok have "handle_add_savings (Whole amount) s =
      refresh_ui (s\<lparr>savings := savings s @ [(next_rowid s, amount)],
                    savings_seq := next_rowid s,
                    last_action_id := Some (next_rowid s)\<rparr>)"
    using handle_add_success [of amount s tot] by blast
  then have last: "last_action_id ?s1 = Some (next_rowid s)"
    by (simp del: handle_add_savings.simps)
  have zero: "get_total_savings ((delete_all_savings ?s1)\<lparr>last_action_id := None\<rparr>) = Inr 0"
    by (rule get_total_savings_empty) (simp add: delete_all_savings_def)
  show "let s1 = ?s1; s2 = snd (handle_reset_savings True s1); s3 = snd (handle_undo s2)
      in last_action_id s2 = Some (next_rowid s)
         \<and> fst (handle_undo s2) = Refreshed False
         \<and> savings s2 = [] \<and> savings s3 = []
         \<and> last_action_id s3 = None
         \<and> get_total_savings s3 = Inr 0"
    unfolding Let_def undo_after_reset_tracked [OF last]
    by (simp add: handle_reset_yes delete_all_savings_def last zero [unfolded delete_all_savings_def]
        del: handle_add_savings.simps)
next
  assume ok: "0 < amount \<and> get_total_savings s = Inr tot \<and> amount \<le> tot"
  let ?s1 = "snd (handle_subtract_savings (Whole amount) s)"
  from ok have "handle_subtract_savings (Whole amount) s =
      refresh_ui (s\<lparr>savings := savings s @ [(next_rowid s, - amount)],
                    savings_seq := next_rowid s,
                    last_action_id := Some (next_rowid s)\<rparr>)"
    using handle_subtract_success [of amount s tot] by blast
  then have last: "last_action_id ?s1 = Some (next_rowid s)"
    by (simp del: handle_subtract_savings.simps)
  have zero: "get_total_savings ((delete_all_savings ?s1)\<lparr>last_action_id := None\<rparr>) = Inr 0"
    by (rule get_total_savings_empty) (simp add: delete_all_savings_def)
  show "let s1 = ?s1; s2 = snd (handle_reset_savings True s1); s3 = snd (handle_undo s2)
      in last_action_id s2 = Some (next_rowid s)
         \<and> fst (handle_undo s2) = Refreshed False
         \<and> savings s2 = [] \<and> savings s3 = []
         \<and> last_action_id s3 = None
         \<and> get_total_savings s3 = Inr 0"
    unfolding Let_def undo_after_reset_tracked [OF last]
    by (simp add: handle_reset_yes delete_all_savings_def last zero [unfolded delete_all_savings_def]
        del: handle_subtract_savings.simps)
qed

theorem undo_after_reset_witness:
  "get_total_savings (run [AddSavings (Whole 100)] init_garden) = Inr 100
   \<and> (3 \<notin> fst ` set (savings (run [AddSavings (Whole 100)] init_garden))
       \<and> delete_saving_row 3 (run [AddSavings (Whole 100)] init_garden)
            = run [AddSavings (Whole 100)] init_garden)
   \<and> outcomes [AddSavings (Whole 40), ResetAll True, UndoLast]
        (run [AddSavings (Whole 100)] init_garden)
       = [Refreshed False, Refreshed False, Refreshed False]
   \<and> fst (handle_undo (snd (handle_reset_savings True
        (snd (handle_add_savings (Whole 40) (run [AddSavings (Whole 100)] init_garden))))))
       = Refreshed False
   \<and> fst (handle_undo (snd (handle_reset_savings True
        (snd (handle_subtract_savings (Whole 40) (run [AddSavings (Whole 100)] init_garden))))))
       = Refreshed False"
proof -
  let ?s = "run [AddSavings (Whole 100)] init_garden"
  have tot: "get_total_savings ?s = Inr 100" by code_simp
  have rows: "savings ?s = [(1, 100)]" by code_simp
  have outs: "outcomes [AddSavings (Whole 40), ResetAll True, UndoLast] ?s
      = [Refreshed False, Refreshed False, Refreshed False]" by code_simp
  have absent: "3 \<notin> fst ` set (savings ?s)"
    unfolding rows by simp
  have ok_add: "(0::int) < 40 \<and> 40 \<le> INT64_MAX \<and> get_total_savings ?s = Inr 100
      \<and> 100 < SAVINGS_GOAL"
    unfolding tot by (simp add: SAVINGS_GOAL_def INT64_MAX_def)
  have ok_sub: "(0::int) < 40 \<and> get_total_savings ?s = Inr 100 \<and> (40::int) \<le> 100"
    unfolding tot by simp
  from undo_after_reset [of ?s 3 40 100] absent ok_add ok_sub tot outs
  show ?thesis
    unfolding Let_def by blast
qed

end
